theory Spec2Isabelle
  imports Complex_Main
begin

section \<open>The harmonic resonance pipeline of scripts/harmonic_qubit_resonance.py\<close>

text \<open>
  The module synthesises a damped multi-harmonic signal (\<open>simulate_harmonic_qubit\<close>),
  summarises its decay (\<open>compute_coherence_metrics\<close>) and computes a bin-limited direct
  Fourier transform (\<open>generate_fft_spectrum\<close>).

  Numbers. A finite Python \<open>float\<close> is modelled by the real number it denotes.

  \<^item> In the synthesis every operation is the operation of the source on doubles: the
    exact result rounded to IEEE 754 binary64 (\<open>binary64\<close>: 53 significant bits, nearest,
    ties to even, gradual underflow), one rounding per operation and in the order of the
    source. \<open>math.exp\<close> and \<open>math.sin\<close> are taken as correctly rounded, \<open>math.pi\<close> is
    the double nearest to \<open>\<pi>\<close>, a decimal literal such as \<open>0.01\<close> or \<open>72.1\<close> is the
    double nearest to it, and \<open>sum\<close> adds from left to right, one rounding per addition
    (from CPython 3.12 on \<open>sum\<close> compensates the rounding errors of a sum of floats, which
    can change the last bit of the weight sum).
  \<^item> The synthesis runs on finite numbers only. An operation whose IEEE result is an
    infinity or a NaN ends the run of the model with \<open>NotFinite\<close>, except where Python
    raises at that very operation (\<open>OverflowError\<close> from \<open>int\<close>, from \<open>math.exp\<close> and
    from the conversion of an \<open>int\<close>). Python itself carries an infinity or a NaN on, and
    then raises \<open>ValueError\<close> from \<open>math.sin\<close> or returns \<open>nan\<close> amplitudes; the model
    says nothing of such a run beyond the fact that it has left the finite numbers.
  \<^item> \<open>round(x, ndigits)\<close> is the nearest multiple of \<open>10^-ndigits\<close> of the exact value
    of the double \<open>x\<close>, ties to the even one; a rounded value stands for the decimal that
    it prints as.
  \<^item> The two analyses take a series of such decimals; their sums, means, quotients and
    trigonometric terms are taken exactly.

  Exceptions are values: a function that can raise returns \<open>py_error + 'a\<close>.
\<close>

datatype py_error = ZeroDivisionError | ValueError | OverflowError | NotFinite

subsection \<open>Python numerics\<close>

definition round_half_even :: "real \<Rightarrow> int" where
  "round_half_even x =
     (let f = \<lfloor>x\<rfloor>; r = x - of_int f
      in if r < 1 / 2 then f else if 1 / 2 < r then f + 1 else if even f then f else f + 1)"

definition py_round :: "real \<Rightarrow> nat \<Rightarrow> real" where
  \<comment> \<open>\<open>round(x, ndigits)\<close> for a float \<open>x\<close> and \<open>ndigits \<ge> 0\<close>.\<close>
  "py_round x ndigits = of_int (round_half_even (x * 10 ^ ndigits)) / 10 ^ ndigits"

definition py_int :: "real \<Rightarrow> int" where
  \<comment> \<open>\<open>int(x)\<close> for a finite float: truncation toward zero.\<close>
  "py_int x = (if 0 \<le> x then \<lfloor>x\<rfloor> else \<lceil>x\<rceil>)"

definition binary64 :: "real \<Rightarrow> real" where
  \<comment> \<open>The binary64 number nearest to \<open>x\<close>, ties to even: 53 significant bits, and
      multiples of \<open>2^-1074\<close> below \<open>2^-1022\<close>. The exponent has no upper limit here;
      \<open>finite_or\<close> cuts the range off.\<close>
  "binary64 x =
     (if x = 0 then 0
      else let e = max (\<lfloor>log 2 \<bar>x\<bar>\<rfloor> - 52) (- 1074)
           in of_int (round_half_even (x / 2 powr of_int e)) * 2 powr of_int e)"

definition expo :: "real \<Rightarrow> int" where
  \<comment> \<open>The exponent of the unit in the last place of the binary64 numbers near \<open>x\<close>.\<close>
  "expo x = max (\<lfloor>log 2 \<bar>x\<bar>\<rfloor> - 52) (- 1074)"

definition max_float :: real where
  \<comment> \<open>\<open>sys.float_info.max\<close>\<close>
  "max_float = (2 ^ 53 - 1) * 2 ^ 971"

definition finite_or :: "py_error \<Rightarrow> real \<Rightarrow> py_error + real" where
  \<comment> \<open>A rounded result beyond the largest double is an overflow.\<close>
  "finite_or e x = (if \<bar>x\<bar> \<le> max_float then Inr x else Inl e)"

definition py_bind :: "py_error + 'a \<Rightarrow> ('a \<Rightarrow> py_error + 'b) \<Rightarrow> py_error + 'b" where
  \<comment> \<open>Sequencing: the first exception ends the computation.\<close>
  "py_bind m f = (case m of Inl e \<Rightarrow> Inl e | Inr x \<Rightarrow> f x)"

definition fl :: "real \<Rightarrow> py_error + real" where
  \<comment> \<open>The result of an arithmetic operation on floats whose exact value is \<open>x\<close>.\<close>
  "fl x = finite_or NotFinite (binary64 x)"

definition fmul :: "real \<Rightarrow> real \<Rightarrow> py_error + real" where
  "fmul x y = fl (x * y)"

definition fadd :: "real \<Rightarrow> real \<Rightarrow> py_error + real" where
  "fadd x y = fl (x + y)"

definition fdiv :: "real \<Rightarrow> real \<Rightarrow> py_error + real" where
  "fdiv x y = (if y = 0 then Inl ZeroDivisionError else fl (x / y))"

definition float_of_int :: "int \<Rightarrow> py_error + real" where
  \<comment> \<open>The conversion of an \<open>int\<close> operand of a float operation.\<close>
  "float_of_int k = finite_or OverflowError (binary64 (of_int k))"

definition math_pi :: real where
  "math_pi = binary64 pi"

definition math_exp :: "real \<Rightarrow> py_error + real" where
  \<comment> \<open>\<open>math.exp\<close> raises OverflowError on overflow and underflows silently.\<close>
  "math_exp x = finite_or OverflowError (binary64 (exp x))"

definition math_sin :: "real \<Rightarrow> py_error + real" where
  "math_sin x = Inr (binary64 (sin x))"

fun py_max :: "real list \<Rightarrow> py_error + real" where
  \<comment> \<open>\<open>max(iterable)\<close>: raises ValueError on an empty iterable.\<close>
  "py_max [] = Inl ValueError"
| "py_max (x # xs) = Inr (foldl max x xs)"

definition last_n :: "nat \<Rightarrow> 'a list \<Rightarrow> 'a list" where
  \<comment> \<open>The slice \<open>xs[-k:]\<close> for \<open>k \<ge> 0\<close>; \<open>xs[-0:]\<close> is the whole list.\<close>
  "last_n k xs = (if k = 0 then xs else drop (length xs - k) xs)"

fun for_each :: "('a \<Rightarrow> py_error + 'b) \<Rightarrow> 'a list \<Rightarrow> py_error + 'b list" where
  \<comment> \<open>A loop that appends one result per element and stops at the first exception.\<close>
  "for_each f [] = Inr []"
| "for_each f (x # xs) =
     (case f x of
        Inl e \<Rightarrow> Inl e
      | Inr y \<Rightarrow> (case for_each f xs of Inl e \<Rightarrow> Inl e | Inr ys \<Rightarrow> Inr (y # ys)))"

fun accumulate :: "('b \<Rightarrow> 'a \<Rightarrow> py_error + 'b) \<Rightarrow> 'b \<Rightarrow> 'a list \<Rightarrow> py_error + 'b" where
  \<comment> \<open>A loop that updates an accumulator per element and stops at the first exception.\<close>
  "accumulate f acc [] = Inr acc"
| "accumulate f acc (x # xs) =
     (case f acc x of Inl e \<Rightarrow> Inl e | Inr acc' \<Rightarrow> accumulate f acc' xs)"

subsection \<open>Data\<close>

record sample =
  time :: real
  amplitude :: real

record sim_parameters =
  base_frequency_hz :: real
  harmonics :: int
  duration_seconds :: real
  sample_rate_hz :: real

record simulation =
  simulation_type :: string
  parameters :: sim_parameters
  data_points :: nat
  resonance_data :: "sample list"

record coherence_metrics =
  total_duration_s :: real
  initial_peak_amplitude :: real
  final_avg_amplitude :: real
  coherence_retention :: real
  sample_count :: nat

record spectrum_point =
  frequency_hz :: real
  magnitude :: real

record fft_spectrum =
  spectrum_type :: string
  frequency_resolution_hz :: real
  bins :: int
  spectrum_data :: "spectrum_point list"

subsection \<open>Signal synthesis\<close>

definition compute_resonance_amplitude :: "real \<Rightarrow> real \<Rightarrow> real \<Rightarrow> py_error + real" where
  \<comment> \<open>\<open>phase = 2 * math.pi * frequency * time\<close>, \<open>decay = math.exp(-damping * time)\<close>,
      \<open>amplitude = decay * math.sin(phase)\<close>\<close>
  "compute_resonance_amplitude frequency t damping =
     py_bind (fmul 2 math_pi) (\<lambda>two_pi.
     py_bind (fmul two_pi frequency) (\<lambda>two_pi_f.
     py_bind (fmul two_pi_f t) (\<lambda>phase.
     py_bind (fmul (- damping) t) (\<lambda>exponent.
     py_bind (math_exp exponent) (\<lambda>decay.
     py_bind (math_sin phase) (\<lambda>s.
     fmul decay s))))))"

definition default_damping :: real where
  \<comment> \<open>The default \<open>0.01\<close> of the parameter \<open>damping\<close> of \<open>compute_resonance_amplitude\<close>.\<close>
  "default_damping = binary64 (1 / 100)"

definition num_samples :: "real \<Rightarrow> real \<Rightarrow> py_error + int" where
  \<comment> \<open>\<open>int(duration * sample_rate)\<close>: \<open>int\<close> raises OverflowError on an infinite product.\<close>
  "num_samples duration sample_rate =
     py_bind (finite_or OverflowError (binary64 (duration * sample_rate)))
       (\<lambda>product. Inr (py_int product))"

definition time_point :: "real \<Rightarrow> nat \<Rightarrow> py_error + real" where
  \<comment> \<open>\<open>t / sample_rate\<close> for the integer \<open>t\<close>\<close>
  "time_point sample_rate i = py_bind (float_of_int (int i)) (\<lambda>x. fdiv x sample_rate)"

definition time_points :: "int \<Rightarrow> real \<Rightarrow> py_error + real list" where
  \<comment> \<open>\<open>[t / sample_rate for t in range(num_samples)]\<close>\<close>
  "time_points n sample_rate = for_each (time_point sample_rate) [0..<nat n]"

definition harmonic_term :: "real \<Rightarrow> real \<Rightarrow> real \<Rightarrow> int \<Rightarrow> py_error + real" where
  \<comment> \<open>The body of the loop over \<open>h\<close>: \<open>freq = base_frequency * h\<close>, \<open>weight = 1.0 / h\<close>,
      \<open>total_amplitude += weight * compute_resonance_amplitude(freq, t)\<close>\<close>
  "harmonic_term base_frequency t acc h =
     py_bind (float_of_int h) (\<lambda>hf.
     py_bind (fmul base_frequency hf) (\<lambda>freq.
     py_bind (fdiv 1 hf) (\<lambda>weight.
     py_bind (compute_resonance_amplitude freq t default_damping) (\<lambda>a.
     py_bind (fmul weight a) (\<lambda>term.
     fadd acc term)))))"

definition total_amplitude :: "real \<Rightarrow> int \<Rightarrow> real \<Rightarrow> py_error + real" where
  \<comment> \<open>The inner loop over \<open>h in range(1, harmonics + 1)\<close>, from \<open>total_amplitude = 0.0\<close>.\<close>
  "total_amplitude base_frequency hs t = accumulate (harmonic_term base_frequency t) 0 [1..hs]"

definition weight_term :: "real \<Rightarrow> int \<Rightarrow> py_error + real" where
  "weight_term acc h =
     py_bind (float_of_int h) (\<lambda>hf. py_bind (fdiv 1 hf) (\<lambda>weight. fadd acc weight))"

definition weight_sum :: "int \<Rightarrow> py_error + real" where
  \<comment> \<open>\<open>sum(1.0 / h for h in range(1, harmonics + 1))\<close>, from the start value 0.\<close>
  "weight_sum hs = accumulate weight_term 0 [1..hs]"

definition resonance_point :: "real \<Rightarrow> int \<Rightarrow> real \<Rightarrow> py_error + sample" where
  \<comment> \<open>The body of the loop over \<open>time_points\<close>; the division raises on a zero weight sum.\<close>
  "resonance_point base_frequency hs t =
     py_bind (total_amplitude base_frequency hs t) (\<lambda>raw.
     py_bind (weight_sum hs) (\<lambda>ws.
     py_bind (fdiv raw ws) (\<lambda>normalized.
     Inr \<lparr>time = py_round t 4, amplitude = py_round normalized 6\<rparr>)))"

definition simulate_harmonic_qubit :: "real \<Rightarrow> int \<Rightarrow> real \<Rightarrow> real \<Rightarrow> py_error + simulation" where
  "simulate_harmonic_qubit base_frequency hs duration sample_rate =
     py_bind (num_samples duration sample_rate) (\<lambda>n.
     py_bind (time_points n sample_rate) (\<lambda>ts.
     py_bind (for_each (resonance_point base_frequency hs) ts) (\<lambda>data.
     Inr \<lparr>simulation_type = ''harmonic_qubit_resonance'',
          parameters = \<lparr>base_frequency_hz = base_frequency, harmonics = hs,
                        duration_seconds = duration, sample_rate_hz = sample_rate\<rparr>,
          data_points = length data,
          resonance_data = data\<rparr>)))"

subsection \<open>Coherence metrics\<close>

definition compute_coherence_metrics :: "sample list \<Rightarrow> py_error + coherence_metrics" where
  "compute_coherence_metrics data =
     (let amplitudes = map amplitude data; times = map time data
      in if amplitudes = [] then
           Inr \<lparr>total_duration_s = 0, initial_peak_amplitude = 0, final_avg_amplitude = 0,
                coherence_retention = 0, sample_count = 0\<rparr>
         else
           let initial_count = min 100 (length amplitudes);
               final_count = min 100 (length amplitudes)
           in case py_max (map abs (take initial_count amplitudes)) of
                Inl e \<Rightarrow> Inl e
              | Inr peak_amplitude \<Rightarrow>
                  if final_count = 0 then Inl ZeroDivisionError
                  else
                    let final_amplitude =
                          sum_list (map abs (last_n final_count amplitudes)) / real final_count;
                        coherence_ratio =
                          (if peak_amplitude > 0 then final_amplitude / peak_amplitude else 0)
                    in Inr \<lparr>total_duration_s = (if times \<noteq> [] then last times else 0),
                            initial_peak_amplitude = py_round peak_amplitude 6,
                            final_avg_amplitude = py_round final_amplitude 6,
                            coherence_retention = py_round coherence_ratio 4,
                            sample_count = length data\<rparr>)"

subsection \<open>Spectrum\<close>

definition dft_sums :: "real list \<Rightarrow> nat \<Rightarrow> nat \<Rightarrow> real \<times> real" where
  \<comment> \<open>The loop over \<open>enumerate(amplitudes)\<close>, from \<open>real = 0.0\<close>, \<open>imag = 0.0\<close>; it runs
      only inside the loop over the bins, where \<open>n \<ge> 2\<close>.\<close>
  "dft_sums amplitudes n k =
     foldl (\<lambda>(re, im) (i, amp).
              let angle = - 2 * pi * real k * real i / real n
              in (re + amp * cos angle, im + amp * sin angle))
       (0, 0) (enumerate 0 amplitudes)"

definition spectrum_bin :: "real list \<Rightarrow> nat \<Rightarrow> real \<Rightarrow> nat \<Rightarrow> py_error + spectrum_point" where
  "spectrum_bin amplitudes n sample_rate k =
     (if n = 0 then Inl ZeroDivisionError
      else let (re, im) = dft_sums amplitudes n k;
               mag = sqrt (re\<^sup>2 + im\<^sup>2) / real n;
               frequency = real k * sample_rate / real n
           in Inr \<lparr>frequency_hz = py_round frequency 4, magnitude = py_round mag 6\<rparr>)"

definition generate_fft_spectrum :: "sample list \<Rightarrow> real \<Rightarrow> int \<Rightarrow> py_error + fft_spectrum" where
  "generate_fft_spectrum data sample_rate max_bins =
     (let amplitudes = map amplitude data;
          n = length amplitudes;
          num_bins = min max_bins (int (n div 2))
      in case for_each (spectrum_bin amplitudes n sample_rate) [0..<nat num_bins] of
           Inl e \<Rightarrow> Inl e
         | Inr spectrum \<Rightarrow>
             if n = 0 then Inl ZeroDivisionError
             else Inr \<lparr>spectrum_type = ''fft'',
                       frequency_resolution_hz = py_round (sample_rate / real n) 6,
                       bins = num_bins,
                       spectrum_data = spectrum\<rparr>)"

subsection \<open>The driver's run\<close>

definition run_simulation :: "py_error + simulation \<times> coherence_metrics \<times> fft_spectrum" where
  \<comment> \<open>\<open>simulate_harmonic_qubit(5.0, 5, 72.1, 100.0)\<close>, then the two analyses with the
      defaults \<open>sample_rate = 100.0\<close>, \<open>max_bins = 50\<close>.\<close>
  "run_simulation =
     (case simulate_harmonic_qubit 5 5 (binary64 (721 / 10)) 100 of
        Inl e \<Rightarrow> Inl e
      | Inr sim \<Rightarrow>
          (case compute_coherence_metrics (resonance_data sim) of
             Inl e \<Rightarrow> Inl e
           | Inr coherence \<Rightarrow>
               (case generate_fft_spectrum (resonance_data sim) 100 50 of
                  Inl e \<Rightarrow> Inl e
                | Inr fft_data \<Rightarrow> Inr (sim, coherence, fft_data))))"

subsection \<open>The specification's synthesis, for comparison\<close>

text \<open>
  The specification describes synthesis over a parameter record that carries a damping
  coefficient, and gives the amplitude as a closed formula over the real numbers. These
  definitions follow the specification's words; the ones above follow the source.
\<close>

record sample_parameters =
  sp_base_frequency :: real
  sp_harmonics :: int
  sp_duration :: real
  sp_sample_rate :: real
  sp_damping :: real

definition valid_parameters :: "sample_parameters \<Rightarrow> bool" where
  "valid_parameters p \<longleftrightarrow>
     0 < sp_base_frequency p \<and> 1 \<le> sp_harmonics p \<and> 0 < sp_duration p \<and>
     0 < sp_sample_rate p \<and> 0 \<le> sp_damping p"

definition amplitude_at :: "real \<Rightarrow> real \<Rightarrow> real \<Rightarrow> real" where
  "amplitude_at frequency t damping = exp (- damping * t) * sin (2 * pi * frequency * t)"

definition spec_amplitude :: "real \<Rightarrow> int \<Rightarrow> real \<Rightarrow> real \<Rightarrow> real" where
  "spec_amplitude base_frequency hs damping t =
     (\<Sum>h \<in> {1..hs}. (1 / of_int h) * amplitude_at (base_frequency * of_int h) t damping)
       / (\<Sum>h \<in> {1..hs}. 1 / of_int h)"

definition synthesize :: "sample_parameters \<Rightarrow> py_error + simulation" where
  \<comment> \<open>The synthesis operation the source offers: it has no argument for the damping.\<close>
  "synthesize p =
     simulate_harmonic_qubit (sp_base_frequency p) (sp_harmonics p) (sp_duration p)
       (sp_sample_rate p)"

section \<open>Basic facts\<close>

subsection \<open>Rounding\<close>

lemma round_half_even_lower: "x - 1 / 2 \<le> real_of_int (round_half_even x)"
  unfolding round_half_even_def Let_def by (auto; linarith)

lemma round_half_even_upper: "real_of_int (round_half_even x) \<le> x + 1 / 2"
  unfolding round_half_even_def Let_def by (auto; linarith)

lemma round_half_even_of_int [simp]: "round_half_even (of_int k) = k"
  by (simp add: round_half_even_def)

lemma round_half_even_mono:
  assumes "x \<le> y"
  shows "round_half_even x \<le> round_half_even y"
proof (cases "\<lfloor>x\<rfloor> = \<lfloor>y\<rfloor>")
  case True
  with assms show ?thesis
    unfolding round_half_even_def Let_def by (auto; linarith)
next
  case False
  with assms have "\<lfloor>x\<rfloor> + 1 \<le> \<lfloor>y\<rfloor>"
    using floor_mono [of x y] by linarith
  moreover have "round_half_even x \<le> \<lfloor>x\<rfloor> + 1"
    unfolding round_half_even_def Let_def by auto
  moreover have "\<lfloor>y\<rfloor> \<le> round_half_even y"
    unfolding round_half_even_def Let_def by auto
  ultimately show ?thesis by linarith
qed

lemma round_half_even_minus: "round_half_even (- x) = - round_half_even x"
proof (cases "x \<in> \<int>")
  case True
  then obtain k where "x = of_int k" by (auto elim: Ints_cases)
  then show ?thesis
    using round_half_even_of_int [of "- k"] by simp
next
  case False
  then have "x \<noteq> of_int \<lfloor>x\<rfloor>"
    by (metis Ints_of_int)
  then have "of_int \<lfloor>x\<rfloor> < x"
    using of_int_floor_le [of x] by linarith
  then have f: "\<lfloor>- x\<rfloor> = - \<lfloor>x\<rfloor> - 1"
    by (intro floor_unique) (simp_all, linarith)
  have fr: "x - of_int \<lfloor>x\<rfloor> < 1" "0 \<le> x - of_int \<lfloor>x\<rfloor>"
    by linarith+
  show ?thesis
    unfolding round_half_even_def Let_def f
    using fr by (auto simp: algebra_simps)
qed

lemma py_round_error: "\<bar>py_round x n - x\<bar> \<le> 1 / 2 / 10 ^ n"
proof -
  define a where "a = real_of_int (round_half_even (x * 10 ^ n))"
  define p :: real where "p = 10 ^ n"
  have p: "0 < p" by (simp add: p_def)
  have "\<bar>a - x * p\<bar> \<le> 1 / 2"
    using round_half_even_lower [of "x * 10 ^ n"] round_half_even_upper [of "x * 10 ^ n"]
    unfolding a_def p_def by linarith
  then have "\<bar>a - x * p\<bar> / p \<le> 1 / 2 / p"
    using p by (intro divide_right_mono) simp_all
  moreover have "a / p - x = (a - x * p) / p"
    using p by (simp add: field_simps)
  then have "\<bar>a / p - x\<bar> = \<bar>a - x * p\<bar> / p"
    using p by (simp add: abs_divide)
  ultimately show ?thesis
    by (simp add: py_round_def a_def p_def)
qed


lemma py_round_grid: "py_round (of_int k / 10 ^ n) n = of_int k / 10 ^ n"
  by (simp add: py_round_def)

lemma py_round_of_int: "py_round (of_int k) n = of_int k"
proof -
  have "of_int k * (10::real) ^ n = of_int (k * 10 ^ n)" by simp
  then show ?thesis unfolding py_round_def by (simp only: round_half_even_of_int) simp
qed

lemma py_round_zero [simp]: "py_round 0 n = 0"
  using py_round_of_int [of 0 n] by simp

lemma round_half_even_near:
  assumes "real_of_int k - 1 / 2 < x" and "x < real_of_int k + 1 / 2"
  shows "round_half_even x = k"
proof -
  have "\<lfloor>x\<rfloor> = k \<or> \<lfloor>x\<rfloor> = k - 1"
    using assms by linarith
  then show ?thesis
  proof
    assume f: "\<lfloor>x\<rfloor> = k"
    then have "x - of_int \<lfloor>x\<rfloor> < 1 / 2"
      using assms by simp
    with f show ?thesis
      by (simp add: round_half_even_def Let_def)
  next
    assume f: "\<lfloor>x\<rfloor> = k - 1"
    then have "1 / 2 < x - of_int \<lfloor>x\<rfloor>"
      using assms by simp
    with f show ?thesis
      by (simp add: round_half_even_def Let_def)
  qed
qed



lemma py_round_on_grid:
  assumes "sr * real k = 10 ^ n"
  shows "py_round (real i / sr) n = real i / sr"
proof -
  have sr: "sr \<noteq> 0"
    using assms by auto
  have k: "real k \<noteq> 0"
  proof
    assume "real k = 0"
    with assms show False by simp
  qed
  have "real i / sr = real i * real k / (sr * real k)"
    using sr k by simp
  also have "\<dots> = real_of_int (int (i * k)) / 10 ^ n"
    by (simp add: assms)
  finally have "real i / sr = real_of_int (int (i * k)) / 10 ^ n" .
  then show ?thesis
    by (simp only: py_round_grid)
qed

subsection \<open>Binary64 rounding\<close>

lemma binary64_expo:
  "binary64 x = of_int (round_half_even (x / 2 powr of_int (expo x))) * 2 powr of_int (expo x)"
  by (simp add: binary64_def expo_def Let_def round_half_even_def)

lemma binary64_zero [simp]: "binary64 0 = 0"
  by (simp add: binary64_def)

lemma round_half_even_nonneg: "0 \<le> x \<Longrightarrow> 0 \<le> round_half_even x"
  using round_half_even_mono [of 0 x] round_half_even_of_int [of 0] by simp

lemma round_half_even_nonpos: "x \<le> 0 \<Longrightarrow> round_half_even x \<le> 0"
  using round_half_even_mono [of x 0] round_half_even_of_int [of 0] by simp

lemma binary64_nonneg: "0 \<le> x \<Longrightarrow> 0 \<le> binary64 x"
  by (simp add: binary64_expo round_half_even_nonneg)

lemma binary64_nonpos: "x \<le> 0 \<Longrightarrow> binary64 x \<le> 0"
  by (simp add: binary64_expo round_half_even_nonpos mult_le_0_iff divide_le_0_iff)

lemma expo_minus [simp]: "expo (- x) = expo x"
  by (simp add: expo_def)

lemma binary64_minus: "binary64 (- x) = - binary64 x"
  by (simp add: binary64_expo round_half_even_minus)

lemma two_powr_int: "0 \<le> m \<Longrightarrow> (2::real) powr of_int m = of_int (2 ^ nat m)"
  by (simp add: powr_real_of_int)

lemma expo_le:
  assumes "0 < x" and "x \<le> 2 powr of_int m" and "- 1074 \<le> m"
  shows "expo x \<le> m"
proof -
  have "log 2 x \<le> log 2 (2 powr of_int m)"
    using assms(1,2) by (intro log_mono) simp_all
  then have "log 2 x \<le> of_int m"
    by simp
  then have "\<lfloor>log 2 x\<rfloor> \<le> m"
    by (simp add: floor_le_iff)
  then show ?thesis
    using assms(1,3) by (simp add: expo_def)
qed

lemma binary64_le_power:
  assumes "0 < x" and "x \<le> 2 powr of_int m" and "expo x \<le> m"
  shows "binary64 x \<le> 2 powr of_int m"
proof -
  let ?e = "expo x"
  have "x / 2 powr of_int ?e \<le> 2 powr of_int m / 2 powr of_int ?e"
    using assms(2) by (simp add: divide_right_mono)
  also have "\<dots> = 2 powr of_int (m - ?e)"
    by (simp add: powr_diff)
  also have "\<dots> = of_int (2 ^ nat (m - ?e))"
    using assms(3) by (intro two_powr_int) simp
  finally have "x / 2 powr of_int ?e \<le> of_int (2 ^ nat (m - ?e))" .
  from round_half_even_mono [OF this]
  have "round_half_even (x / 2 powr of_int ?e) \<le> 2 ^ nat (m - ?e)"
    by (simp only: round_half_even_of_int)
  then have "real_of_int (round_half_even (x / 2 powr of_int ?e)) \<le> of_int (2 ^ nat (m - ?e))"
    by linarith
  also have "of_int (2 ^ nat (m - ?e)) = (2::real) powr of_int (m - ?e)"
    using assms(3) by (intro two_powr_int [symmetric]) simp
  finally have "real_of_int (round_half_even (x / 2 powr of_int ?e)) * 2 powr of_int ?e
      \<le> 2 powr of_int (m - ?e) * 2 powr of_int ?e"
    by (intro mult_right_mono) simp_all
  also have "\<dots> = 2 powr of_int m"
    by (simp flip: powr_add)
  finally show ?thesis
    by (simp add: binary64_expo)
qed

lemma binary64_ge_power:
  assumes "2 powr of_int m \<le> y" and "expo y \<le> m"
  shows "2 powr of_int m \<le> binary64 y"
proof -
  let ?e = "expo y"
  have "2 powr of_int m / 2 powr of_int ?e \<le> y / 2 powr of_int ?e"
    using assms(1) by (simp add: divide_right_mono)
  moreover have "(2::real) powr of_int m / 2 powr of_int ?e = 2 powr of_int (m - ?e)"
    by (simp add: powr_diff)
  moreover have "(2::real) powr of_int (m - ?e) = of_int (2 ^ nat (m - ?e))"
    using assms(2) by (intro two_powr_int) simp
  ultimately have "of_int (2 ^ nat (m - ?e)) \<le> y / 2 powr of_int ?e"
    by simp
  from round_half_even_mono [OF this]
  have "2 ^ nat (m - ?e) \<le> round_half_even (y / 2 powr of_int ?e)"
    by (simp only: round_half_even_of_int)
  then have r: "of_int (2 ^ nat (m - ?e)) \<le> real_of_int (round_half_even (y / 2 powr of_int ?e))"
    by linarith
  have p: "of_int (2 ^ nat (m - ?e)) = (2::real) powr of_int (m - ?e)"
    using assms(2) by (intro two_powr_int [symmetric]) simp
  from r have "2 powr of_int (m - ?e) \<le> real_of_int (round_half_even (y / 2 powr of_int ?e))"
    unfolding p .
  then have q: "2 powr of_int (m - ?e) * 2 powr of_int ?e
      \<le> real_of_int (round_half_even (y / 2 powr of_int ?e)) * 2 powr of_int ?e"
    by (intro mult_right_mono) simp_all
  have pe: "(2::real) powr of_int (m - ?e) * 2 powr of_int ?e = 2 powr of_int m"
    by (simp flip: powr_add)
  from q show ?thesis
    unfolding pe binary64_expo [of y] .
qed

lemma floor_log_bounds:
  assumes "0 < x"
  shows "2 powr of_int \<lfloor>log 2 x\<rfloor> \<le> x" and "x < 2 powr of_int (\<lfloor>log 2 x\<rfloor> + 1)"
  using assms floor_log_eq_powr_iff [of x 2 "\<lfloor>log 2 x\<rfloor>"] by simp_all

lemma expo_mono:
  assumes "0 < x" and "x \<le> y"
  shows "expo x \<le> expo y"
proof -
  have "log 2 x \<le> log 2 y"
    using assms by (intro log_mono) simp_all
  then have "\<lfloor>log 2 x\<rfloor> \<le> \<lfloor>log 2 y\<rfloor>"
    by (rule floor_mono)
  then show ?thesis
    using assms by (simp add: expo_def)
qed

lemma binary64_mono_pos:
  assumes "0 < x" and "x \<le> y"
  shows "binary64 x \<le> binary64 y"
proof (cases "expo x = expo y")
  case True
  have "x / 2 powr of_int (expo y) \<le> y / 2 powr of_int (expo y)"
    using assms(2) by (simp add: divide_right_mono)
  then have "round_half_even (x / 2 powr of_int (expo y))
      \<le> round_half_even (y / 2 powr of_int (expo y))"
    by (rule round_half_even_mono)
  then have "real_of_int (round_half_even (x / 2 powr of_int (expo y))) * 2 powr of_int (expo y)
      \<le> real_of_int (round_half_even (y / 2 powr of_int (expo y))) * 2 powr of_int (expo y)"
    by (intro mult_right_mono) simp_all
  then show ?thesis
    unfolding binary64_expo [of x] binary64_expo [of y] True .
next
  case False
  have y: "0 < y"
    using assms by linarith
  let ?kx = "\<lfloor>log 2 x\<rfloor>" and ?ky = "\<lfloor>log 2 y\<rfloor>"
  have lt: "expo x < expo y"
    using False expo_mono [OF assms] by linarith
  have ex: "?kx - 52 \<le> expo x" and lo: "- 1074 \<le> expo x"
    using assms(1) by (simp_all add: expo_def)
  have ey: "expo y = ?ky - 52"
    using lt lo y by (simp add: expo_def max_def split: if_splits)
  have k: "?kx + 1 \<le> ?ky"
    using ex lt ey by linarith
  have "x < 2 powr of_int (?kx + 1)"
    using floor_log_bounds(2) [OF assms(1)] .
  also have "\<dots> \<le> 2 powr of_int ?ky"
    using k by (intro powr_mono) simp_all
  finally have xk: "x \<le> 2 powr of_int ?ky"
    by simp
  have "binary64 x \<le> 2 powr of_int ?ky"
    using assms(1) xk lt ey by (intro binary64_le_power) simp_all
  also have "\<dots> \<le> binary64 y"
    using floor_log_bounds(1) [OF y] ey by (intro binary64_ge_power) simp_all
  finally show ?thesis .
qed

lemma binary64_mono:
  assumes "x \<le> y"
  shows "binary64 x \<le> binary64 y"
proof -
  consider "0 < x" | "x \<le> 0" "0 \<le> y" | "y < 0"
    by linarith
  then show ?thesis
  proof cases
    case 1
    then show ?thesis
      using assms by (rule binary64_mono_pos)
  next
    case 2
    then show ?thesis
      using binary64_nonpos [of x] binary64_nonneg [of y] by linarith
  next
    case 3
    then have "binary64 (- y) \<le> binary64 (- x)"
      using assms by (intro binary64_mono_pos) simp_all
    then show ?thesis
      by (simp add: binary64_minus)
  qed
qed

lemma binary64_power [simp]:
  assumes "- 1074 \<le> m"
  shows "binary64 (2 powr of_int m) = 2 powr of_int m"
proof -
  have e: "expo (2 powr of_int m) \<le> m"
    using assms by (intro expo_le) simp_all
  have "binary64 (2 powr of_int m) \<le> 2 powr of_int m"
    using e by (intro binary64_le_power) simp_all
  moreover have "2 powr of_int m \<le> binary64 (2 powr of_int m)"
    using e by (intro binary64_ge_power) simp_all
  ultimately show ?thesis
    by linarith
qed

lemma binary64_abs: "\<bar>binary64 x\<bar> = binary64 \<bar>x\<bar>"
proof (cases "0 \<le> x")
  case True
  then show ?thesis
    using binary64_nonneg [of x] by simp
next
  case False
  then show ?thesis
    using binary64_nonpos [of x] by (simp add: binary64_minus)
qed

lemma binary64_bound_power:
  assumes "\<bar>x\<bar> \<le> 2 powr of_int m" and "- 1074 \<le> m"
  shows "\<bar>binary64 x\<bar> \<le> 2 powr of_int m"
  using binary64_mono [OF assms(1)] assms(2) by (simp add: binary64_abs)

lemma round_half_even_zero [simp]: "round_half_even 0 = 0"
  using round_half_even_of_int [of 0] by simp

lemma binary64_representable:
  assumes "\<bar>n\<bar> < 2 ^ 53" and "- 1074 \<le> e"
  shows "binary64 (of_int n * 2 powr of_int e) = of_int n * 2 powr of_int e"
proof (cases "n = 0")
  case True
  then show ?thesis by simp
next
  case False
  let ?x = "real_of_int n * 2 powr of_int e"
  have pos: "0 < \<bar>?x\<bar>"
    using False by simp
  have "\<bar>?x\<bar> = real_of_int \<bar>n\<bar> * 2 powr of_int e"
    by (simp add: abs_mult)
  also have "\<dots> \<le> 2 ^ 53 * 2 powr of_int e"
    using assms(1) by (intro mult_right_mono) simp_all
  also have "\<dots> = 2 powr of_int (53 + e)"
    by (simp add: powr_add)
  finally have "\<bar>?x\<bar> \<le> 2 powr of_int (53 + e)" .
  moreover have "\<bar>?x\<bar> \<noteq> 2 powr of_int (53 + e)"
  proof
    assume "\<bar>?x\<bar> = 2 powr of_int (53 + e)"
    then have "real_of_int \<bar>n\<bar> * 2 powr of_int e = 2 ^ 53 * 2 powr of_int e"
      by (simp add: abs_mult powr_add)
    then have "real_of_int \<bar>n\<bar> = 2 ^ 53"
      by simp
    then have "\<bar>n\<bar> = 2 ^ 53"
      by simp
    with assms(1) show False by simp
  qed
  ultimately have lt: "\<bar>?x\<bar> < 2 powr of_int (53 + e)"
    by linarith
  have "log 2 \<bar>?x\<bar> < log 2 (2 powr of_int (53 + e))"
    using pos lt by (intro log_less) simp_all
  then have "log 2 \<bar>?x\<bar> < of_int (53 + e)"
    by simp
  then have "\<lfloor>log 2 \<bar>?x\<bar>\<rfloor> < 53 + e"
    by (simp add: floor_less_iff)
  then have ex: "expo ?x \<le> e"
    using assms(2) by (simp add: expo_def)
  have "?x / 2 powr of_int (expo ?x) = of_int n * 2 powr of_int (e - expo ?x)"
    by (simp add: powr_diff)
  also have "\<dots> = of_int n * of_int (2 ^ nat (e - expo ?x))"
    using ex two_powr_int [of "e - expo ?x"] by simp
  also have "\<dots> = of_int (n * 2 ^ nat (e - expo ?x))"
    by simp
  finally have "round_half_even (?x / 2 powr of_int (expo ?x)) = n * 2 ^ nat (e - expo ?x)"
    by (simp only: round_half_even_of_int)
  then have "binary64 ?x = of_int (n * 2 ^ nat (e - expo ?x)) * 2 powr of_int (expo ?x)"
    by (simp only: binary64_expo [of ?x])
  also have "\<dots> = of_int n * (of_int (2 ^ nat (e - expo ?x)) * 2 powr of_int (expo ?x))"
    by simp
  also have "of_int (2 ^ nat (e - expo ?x)) = (2::real) powr of_int (e - expo ?x)"
    using ex by (intro two_powr_int [symmetric]) simp
  also have "2 powr of_int (e - expo ?x) * 2 powr of_int (expo ?x) = (2::real) powr of_int e"
    by (simp flip: powr_add)
  finally show ?thesis .
qed

lemma significand_bound:
  "\<bar>round_half_even (x / 2 powr of_int (expo x))\<bar> \<le> 2 ^ 53"
proof (cases "x = 0")
  case True
  then show ?thesis by simp
next
  case False
  let ?k = "\<lfloor>log 2 \<bar>x\<bar>\<rfloor>"
  have pos: "0 < \<bar>x\<bar>"
    using False by simp
  have e: "?k - 52 \<le> expo x"
    by (simp add: expo_def)
  have "\<bar>x\<bar> / 2 powr of_int (expo x) \<le> 2 powr of_int (?k + 1) / 2 powr of_int (expo x)"
    using floor_log_bounds(2) [OF pos] by (intro divide_right_mono) simp_all
  also have "\<dots> = 2 powr of_int (?k + 1 - expo x)"
    by (simp add: powr_diff)
  also have "\<dots> \<le> 2 powr of_int 53"
    using e by (intro powr_mono) simp_all
  finally have "\<bar>x\<bar> / 2 powr of_int (expo x) \<le> 2 ^ 53"
    by simp
  moreover have "\<bar>x / 2 powr of_int (expo x)\<bar> = \<bar>x\<bar> / 2 powr of_int (expo x)"
    by (simp add: abs_divide)
  ultimately have b: "\<bar>x / 2 powr of_int (expo x)\<bar> \<le> 2 ^ 53"
    by (simp only:)
  have r1: "round_half_even (2 ^ 53) = 2 ^ 53"
    using round_half_even_of_int [of "2 ^ 53"] by simp
  have r2: "round_half_even (- (2 ^ 53)) = - (2 ^ 53)"
    using round_half_even_of_int [of "- (2 ^ 53)"] by simp
  from b have up: "x / 2 powr of_int (expo x) \<le> 2 ^ 53"
    and lo: "- (2 ^ 53) \<le> x / 2 powr of_int (expo x)"
    by linarith+
  show ?thesis
    using round_half_even_mono [OF up] round_half_even_mono [OF lo]
    unfolding r1 r2 by linarith
qed

lemma binary64_idem [simp]: "binary64 (binary64 x) = binary64 x"
proof -
  let ?n = "round_half_even (x / 2 powr of_int (expo x))"
  have e: "- 1074 \<le> expo x"
    by (simp add: expo_def)
  have b: "binary64 x = of_int ?n * 2 powr of_int (expo x)"
    by (rule binary64_expo)
  consider "\<bar>?n\<bar> < 2 ^ 53" | "?n = 2 ^ 53" | "?n = - (2 ^ 53)"
    using significand_bound [of x] by linarith
  then show ?thesis
  proof cases
    case 1
    then show ?thesis
      unfolding b using e by (rule binary64_representable)
  next
    case 2
    then have "binary64 x = 2 powr of_int (53 + expo x)"
      unfolding b by (simp add: powr_add)
    with binary64_power [of "53 + expo x"] e show ?thesis
      by simp
  next
    case 3
    then have "binary64 x = - (2 powr of_int (53 + expo x))"
      unfolding b by (simp add: powr_add)
    with binary64_power [of "53 + expo x"] e show ?thesis
      by (simp add: binary64_minus)
  qed
qed

lemma binary64_bound:
  assumes "\<bar>x\<bar> \<le> binary64 b"
  shows "\<bar>binary64 x\<bar> \<le> binary64 b"
  using binary64_mono [OF assms] by (simp add: binary64_abs)

lemma binary64_error: "\<bar>binary64 x - x\<bar> \<le> \<bar>x\<bar> / 2 ^ 53 + 2 powr - 1075"
proof (cases "x = 0")
  case True
  then show ?thesis by simp
next
  case False
  let ?p = "(2::real) powr of_int (expo x)"
  let ?n = "round_half_even (x / ?p)"
  have "\<bar>real_of_int ?n - x / ?p\<bar> \<le> 1 / 2"
    using round_half_even_lower [of "x / ?p"] round_half_even_upper [of "x / ?p"] by linarith
  then have "\<bar>real_of_int ?n - x / ?p\<bar> * ?p \<le> 1 / 2 * ?p"
    by (intro mult_right_mono) simp_all
  moreover have "\<bar>real_of_int ?n - x / ?p\<bar> * ?p = \<bar>real_of_int ?n * ?p - x\<bar>"
  proof -
    have "\<bar>real_of_int ?n - x / ?p\<bar> * ?p = \<bar>(real_of_int ?n - x / ?p) * ?p\<bar>"
      by (simp add: abs_mult)
    also have "(real_of_int ?n - x / ?p) * ?p = real_of_int ?n * ?p - x"
      by (simp add: algebra_simps)
    finally show ?thesis .
  qed
  ultimately have err: "\<bar>binary64 x - x\<bar> \<le> ?p / 2"
    by (simp add: binary64_expo [of x])
  have pos: "0 < \<bar>x\<bar>"
    using False by simp
  have "expo x = \<lfloor>log 2 \<bar>x\<bar>\<rfloor> - 52 \<or> expo x = - 1074"
    unfolding expo_def by linarith
  then consider "expo x = \<lfloor>log 2 \<bar>x\<bar>\<rfloor> - 52" | "expo x = - 1074"
    by blast
  then have "?p \<le> \<bar>x\<bar> / 2 ^ 52 + 2 powr - 1074"
  proof cases
    case 1
    then have "?p = 2 powr of_int \<lfloor>log 2 \<bar>x\<bar>\<rfloor> / 2 ^ 52"
      by (simp add: powr_diff)
    also have "\<dots> \<le> \<bar>x\<bar> / 2 ^ 52"
      using floor_log_bounds(1) [OF pos] by (intro divide_right_mono) simp_all
    finally show ?thesis
      by (simp add: add_increasing2)
  next
    case 2
    then show ?thesis
      using pos by simp
  qed
  then have "?p / 2 \<le> (\<bar>x\<bar> / 2 ^ 52 + 2 powr - 1074) / 2"
    by simp
  also have "\<dots> = \<bar>x\<bar> / 2 ^ 53 + 2 powr - 1075"
  proof -
    have "(2::real) powr - 1074 / 2 = 2 powr (- 1074 - 1)"
      by (simp only: powr_diff) simp
    then show ?thesis
      by (simp add: add_divide_distrib)
  qed
  finally show ?thesis
    using err by linarith
qed

subsection \<open>Loops\<close>

lemma for_each_Inr: "for_each (\<lambda>x. Inr (g x)) xs = Inr (map g xs)"
  by (induction xs) simp_all

lemma for_each_cong_Inr:
  "(\<And>x. x \<in> set xs \<Longrightarrow> f x = Inr (g x)) \<Longrightarrow> for_each f xs = Inr (map g xs)"
  by (induction xs) simp_all

lemma for_each_first_fails: "f x = Inl e \<Longrightarrow> for_each f (x # xs) = Inl e"
  by simp

subsection \<open>Floating-point operations\<close>

lemma py_bind_Inr [simp]: "py_bind (Inr x) f = f x"
  by (simp add: py_bind_def)

lemma py_bind_Inl [simp]: "py_bind (Inl e) f = Inl e"
  by (simp add: py_bind_def)

lemma py_bind_eq_Inr: "py_bind m f = Inr y \<longleftrightarrow> (\<exists>x. m = Inr x \<and> f x = Inr y)"
  by (cases m) simp_all

lemma max_float_ge: "2 ^ 1023 \<le> max_float"
  by (simp add: max_float_def)

lemma max_float_pos: "0 < max_float"
  by (simp add: max_float_def)

lemma finite_or_Inr: "finite_or e x = Inr y \<longleftrightarrow> y = x \<and> \<bar>x\<bar> \<le> max_float"
  by (auto simp: finite_or_def)

lemma fl_Inr: "fl x = Inr y \<longleftrightarrow> y = binary64 x \<and> \<bar>binary64 x\<bar> \<le> max_float"
  by (auto simp: fl_def finite_or_def)

lemma two_powr_nat: "(2::real) powr real k = 2 ^ k"
  by (simp add: powr_realpow)

lemma binary64_bound_pow:
  assumes "\<bar>x\<bar> \<le> 2 ^ k"
  shows "\<bar>binary64 x\<bar> \<le> 2 ^ k"
  using binary64_bound_power [of x "int k"] assms by (simp add: two_powr_nat)

lemma binary64_one [simp]: "binary64 1 = 1"
  using binary64_power [of 0] by simp

lemma binary64_unit:
  assumes "\<bar>x\<bar> \<le> 1"
  shows "\<bar>binary64 x\<bar> \<le> 1"
  using binary64_bound_pow [of x 0] assms by simp

lemma binary64_finite:
  assumes "\<bar>x\<bar> \<le> 2 ^ k" and "k \<le> 1023"
  shows "\<bar>binary64 x\<bar> \<le> max_float"
proof -
  have "\<bar>binary64 x\<bar> \<le> 2 ^ k"
    using assms(1) by (rule binary64_bound_pow)
  also have "(2::real) ^ k \<le> 2 ^ 1023"
    using assms(2) by (intro power_increasing) simp_all
  finally show ?thesis
    using max_float_ge by linarith
qed

lemma fl_ok:
  assumes "\<bar>x\<bar> \<le> 2 ^ k" and "k \<le> 1023"
  shows "fl x = Inr (binary64 x)"
  using binary64_finite [OF assms] by (simp add: fl_def finite_or_def)

lemma finite_or_ok:
  assumes "\<bar>x\<bar> \<le> 2 ^ k" and "k \<le> 1023"
  shows "finite_or e (binary64 x) = Inr (binary64 x)"
  using binary64_finite [OF assms] by (simp add: finite_or_def)

lemma for_each_length: "for_each f xs = Inr ys \<Longrightarrow> length ys = length xs"
  by (induction xs arbitrary: ys) (auto split: sum.splits)

lemma for_each_nth:
  "for_each f xs = Inr ys \<Longrightarrow> i < length xs \<Longrightarrow> f (xs ! i) = Inr (ys ! i)"
proof (induction xs arbitrary: ys i)
  case Nil
  then show ?case by simp
next
  case (Cons x xs)
  then show ?case
    by (cases i) (auto split: sum.splits)
qed

lemma for_each_exists:
  "(\<And>x. x \<in> set xs \<Longrightarrow> \<exists>y. f x = Inr y) \<Longrightarrow> \<exists>ys. for_each f xs = Inr ys"
proof (induction xs)
  case Nil
  then show ?case by simp
next
  case (Cons x xs)
  then obtain y where "f x = Inr y"
    by (meson list.set_intros(1))
  moreover obtain ys where "for_each f xs = Inr ys"
    using Cons by (meson list.set_intros(2))
  ultimately show ?case
    by simp
qed

lemma math_pi_bound: "0 \<le> math_pi" "math_pi \<le> 4"
proof -
  show "0 \<le> math_pi"
    unfolding math_pi_def by (rule binary64_nonneg) simp
  have "\<bar>pi\<bar> \<le> 2 ^ 2"
    using pi_less_4 by simp
  then have "\<bar>binary64 pi\<bar> \<le> 2 ^ 2"
    by (rule binary64_bound_pow)
  then show "math_pi \<le> 4"
    unfolding math_pi_def by simp
qed

lemma default_damping_bound: "0 \<le> default_damping" "default_damping \<le> 1"
proof -
  show "0 \<le> default_damping"
    unfolding default_damping_def by (rule binary64_nonneg) simp
  have "\<bar>binary64 (1 / 100)\<bar> \<le> 1"
    by (rule binary64_unit) simp
  then show "default_damping \<le> 1"
    unfolding default_damping_def by simp
qed

lemma math_sin_unit: "math_sin x = Inr s \<Longrightarrow> \<bar>s\<bar> \<le> 1"
  by (auto simp: math_sin_def intro: binary64_unit)

lemma math_exp_unit:
  assumes "math_exp x = Inr y" and "x \<le> 0"
  shows "0 \<le> y" and "y \<le> 1"
proof -
  have y: "y = binary64 (exp x)"
    using assms(1) by (simp add: math_exp_def finite_or_Inr)
  show "0 \<le> y"
    unfolding y by (rule binary64_nonneg) simp
  have "\<bar>binary64 (exp x)\<bar> \<le> 1"
    using assms(2) by (intro binary64_unit) simp
  then show "y \<le> 1"
    unfolding y by simp
qed

lemma math_exp_ok:
  assumes "x \<le> 0"
  shows "math_exp x = Inr (binary64 (exp x))"
proof -
  have "\<bar>exp x\<bar> \<le> 2 ^ 0"
    using assms by simp
  then show ?thesis
    unfolding math_exp_def by (rule finite_or_ok) simp
qed

lemma compute_resonance_amplitude_unit:
  assumes "compute_resonance_amplitude f t d = Inr a" and "0 \<le> d" and "0 \<le> t"
  shows "\<bar>a\<bar> \<le> 1"
proof -
  from assms(1) obtain phase exponent decay s
    where e: "fmul (- d) t = Inr exponent"
      and dc: "math_exp exponent = Inr decay"
      and s: "math_sin phase = Inr s"
      and a: "fmul decay s = Inr a"
    unfolding compute_resonance_amplitude_def py_bind_eq_Inr by blast
  have "- d * t \<le> 0"
    using assms(2,3) by (simp add: mult_nonneg_nonneg)
  then have "binary64 (- d * t) \<le> 0"
    by (rule binary64_nonpos)
  then have "exponent \<le> 0"
    using e by (simp add: fmul_def fl_Inr)
  from math_exp_unit [OF dc this] math_sin_unit [OF s]
  have "\<bar>decay * s\<bar> \<le> 1"
    by (simp add: abs_mult mult_le_one)
  then have "\<bar>binary64 (decay * s)\<bar> \<le> 1"
    by (rule binary64_unit)
  then show ?thesis
    using a by (simp add: fmul_def fl_Inr)
qed

subsection \<open>Bounds in the synthesis\<close>

lemma float_of_int_Inr:
  "float_of_int k = Inr x \<longleftrightarrow> x = binary64 (of_int k) \<and> \<bar>binary64 (of_int k)\<bar> \<le> max_float"
  by (auto simp: float_of_int_def finite_or_def)

lemma float_of_int_ge_one:
  assumes "float_of_int h = Inr hf" and "1 \<le> h"
  shows "1 \<le> hf"
proof -
  have "binary64 1 \<le> binary64 (of_int h)"
    using assms(2) by (intro binary64_mono) simp
  then show ?thesis
    using assms(1) by (simp add: float_of_int_Inr)
qed

lemma weight_unit:
  assumes "fdiv 1 hf = Inr w" and "1 \<le> hf"
  shows "0 \<le> w" and "w \<le> 1" and "binary64 w = w"
proof -
  have w: "w = binary64 (1 / hf)"
    using assms by (simp add: fdiv_def fl_Inr split: if_splits)
  show "0 \<le> w"
    unfolding w using assms(2) by (intro binary64_nonneg) simp
  have "\<bar>binary64 (1 / hf)\<bar> \<le> 1"
    using assms(2) by (intro binary64_unit) simp
  then show "w \<le> 1"
    unfolding w by simp
  show "binary64 w = w"
    unfolding w by simp
qed

lemma harmonic_term_bound:
  assumes "harmonic_term bf t acc h = Inr acc'" and "weight_term W h = Inr W'"
    and "\<bar>acc\<bar> \<le> W" and "1 \<le> h" and "0 \<le> t"
  shows "\<bar>acc'\<bar> \<le> W'"
proof -
  from assms(1) obtain hf freq w a wa
    where hf: "float_of_int h = Inr hf"
      and w: "fdiv 1 hf = Inr w"
      and a: "compute_resonance_amplitude freq t default_damping = Inr a"
      and wa: "fmul w a = Inr wa"
      and acc': "fadd acc wa = Inr acc'"
    unfolding harmonic_term_def py_bind_eq_Inr by blast
  from assms(2) hf w have W': "fadd W w = Inr W'"
    unfolding weight_term_def by simp
  have hf1: "1 \<le> hf"
    using hf assms(4) by (rule float_of_int_ge_one)
  note wu = weight_unit [OF w hf1]
  have "\<bar>a\<bar> \<le> 1"
    using a default_damping_bound(1) assms(5) by (rule compute_resonance_amplitude_unit)
  then have "\<bar>w * a\<bar> \<le> w"
    using wu(1) by (simp add: abs_mult mult_left_le)
  then have "\<bar>w * a\<bar> \<le> binary64 w"
    using wu(3) by simp
  then have "\<bar>binary64 (w * a)\<bar> \<le> binary64 w"
    by (rule binary64_bound)
  then have t: "\<bar>wa\<bar> \<le> w"
    using wa wu(3) by (simp add: fmul_def fl_Inr)
  have "\<bar>acc + wa\<bar> \<le> W + w"
    using t assms(3) by linarith
  then have "binary64 \<bar>acc + wa\<bar> \<le> binary64 (W + w)"
    by (rule binary64_mono)
  then show ?thesis
    using acc' W' by (simp add: fadd_def fl_Inr binary64_abs)
qed

lemma total_amplitude_bound_list:
  assumes "accumulate (harmonic_term bf t) acc hl = Inr acc'"
    and "accumulate weight_term W hl = Inr W'"
    and "\<bar>acc\<bar> \<le> W" and "\<forall>h\<in>set hl. 1 \<le> h" and "0 \<le> t"
  shows "\<bar>acc'\<bar> \<le> W'"
  using assms
proof (induction hl arbitrary: acc W)
  case Nil
  then show ?case by simp
next
  case (Cons h hl)
  from Cons.prems(1) obtain acc1 where a1: "harmonic_term bf t acc h = Inr acc1"
    and a2: "accumulate (harmonic_term bf t) acc1 hl = Inr acc'"
    by (auto split: sum.splits)
  from Cons.prems(2) obtain W1 where w1: "weight_term W h = Inr W1"
    and w2: "accumulate weight_term W1 hl = Inr W'"
    by (auto split: sum.splits)
  have "\<bar>acc1\<bar> \<le> W1"
    using a1 w1 Cons.prems(3) _ Cons.prems(5) by (rule harmonic_term_bound) (use Cons.prems(4) in simp)
  then show ?case
    using Cons.IH [OF a2 w2] Cons.prems(4,5) by simp
qed

lemma total_amplitude_bound:
  assumes "total_amplitude bf hs t = Inr raw" and "weight_sum hs = Inr ws" and "0 \<le> t"
  shows "\<bar>raw\<bar> \<le> ws"
  using assms total_amplitude_bound_list [of bf t 0 "[1..hs]" raw 0 ws]
  by (simp add: total_amplitude_def weight_sum_def)


lemma time_point_Inr:
  assumes "time_point sr i = Inr t"
  shows "t = binary64 (binary64 (real i) / sr)" and "sr \<noteq> 0"
  using assms
  by (auto simp: time_point_def py_bind_eq_Inr float_of_int_Inr fdiv_def fl_Inr split: if_splits)


lemma simulate_data:
  assumes "simulate_harmonic_qubit bf hs d sr = Inr r"
  shows "\<exists>n. num_samples d sr = Inr n \<and> length (resonance_data r) = nat n
           \<and> data_points r = nat n"
    and "i < length (resonance_data r) \<Longrightarrow>
           \<exists>t. time_point sr i = Inr t \<and> resonance_point bf hs t = Inr (resonance_data r ! i)"
proof -
  from assms obtain n ts data
    where n: "num_samples d sr = Inr n"
      and ts: "time_points n sr = Inr ts"
      and data: "for_each (resonance_point bf hs) ts = Inr data"
      and r: "resonance_data r = data" "data_points r = length data"
    unfolding simulate_harmonic_qubit_def py_bind_eq_Inr by auto
  have lts: "length ts = nat n"
    using for_each_length [OF ts [unfolded time_points_def]] by simp
  have ld: "length data = nat n"
    using for_each_length [OF data] lts by simp
  show "\<exists>n. num_samples d sr = Inr n \<and> length (resonance_data r) = nat n
           \<and> data_points r = nat n"
    using n ld r by simp
  show "\<exists>t. time_point sr i = Inr t \<and> resonance_point bf hs t = Inr (resonance_data r ! i)"
    if "i < length (resonance_data r)"
  proof -
    have i: "i < nat n"
      using that r ld by simp
    have "time_point sr ([0..<nat n] ! i) = Inr (ts ! i)"
      using ts i unfolding time_points_def by (intro for_each_nth) simp_all
    then have "time_point sr i = Inr (ts ! i)"
      using i by simp
    moreover have "resonance_point bf hs (ts ! i) = Inr (data ! i)"
      using data i lts by (intro for_each_nth) simp_all
    ultimately show ?thesis
      using r by auto
  qed
qed

subsection \<open>The synthesis returns\<close>

lemma binary64_of_int:
  assumes "\<bar>k\<bar> < 2 ^ 53"
  shows "binary64 (of_int k) = of_int k"
  using binary64_representable [of k 0] assms by simp

lemma float_of_int_ok:
  assumes "\<bar>real_of_int k\<bar> \<le> 2 ^ m" and "m \<le> 1023"
  shows "float_of_int k = Inr (binary64 (of_int k))"
  unfolding float_of_int_def using assms by (rule finite_or_ok)

lemma float_of_int_exact:
  assumes "\<bar>k\<bar> < 2 ^ 53"
  shows "float_of_int k = Inr (of_int k)"
proof -
  have "\<bar>real_of_int k\<bar> \<le> 2 ^ 53"
  proof -
    have "real_of_int \<bar>k\<bar> \<le> real_of_int (2 ^ 53)"
      using assms by (intro of_int_le_iff [THEN iffD2]) simp
    then show ?thesis by simp
  qed
  then have "float_of_int k = Inr (binary64 (of_int k))"
    by (rule float_of_int_ok) simp
  then show ?thesis
    by (simp add: binary64_of_int [OF assms])
qed

lemma fmul_ok:
  assumes "\<bar>x\<bar> \<le> 2 ^ a" and "\<bar>y\<bar> \<le> 2 ^ b" and "a + b \<le> 1023"
  shows "fmul x y = Inr (binary64 (x * y))" and "\<bar>binary64 (x * y)\<bar> \<le> 2 ^ (a + b)"
proof -
  have "\<bar>x * y\<bar> \<le> 2 ^ a * 2 ^ b"
    unfolding abs_mult using assms(1,2) by (intro mult_mono) simp_all
  then have b: "\<bar>x * y\<bar> \<le> 2 ^ (a + b)"
    by (simp add: power_add)
  show "fmul x y = Inr (binary64 (x * y))"
    unfolding fmul_def using b assms(3) by (rule fl_ok)
  show "\<bar>binary64 (x * y)\<bar> \<le> 2 ^ (a + b)"
    using b by (rule binary64_bound_pow)
qed

lemma compute_resonance_amplitude_ok:
  assumes "\<bar>f\<bar> \<le> 2 ^ 400" and "0 \<le> t" and "t \<le> 2 ^ 600" and "0 \<le> d" and "d \<le> 1"
  shows "compute_resonance_amplitude f t d =
     Inr (binary64 (binary64 (exp (binary64 (- d * t)))
            * binary64 (sin (binary64 (binary64 (binary64 (2 * math_pi) * f) * t)))))"
proof -
  have pi2: "\<bar>math_pi\<bar> \<le> 2 ^ 2"
    using math_pi_bound by simp
  have two: "\<bar>2::real\<bar> \<le> 2 ^ 1"
    by simp
  have t: "\<bar>t\<bar> \<le> 2 ^ 600"
    using assms(2,3) by simp
  note s1 = fmul_ok [OF two pi2]
  note s2 = fmul_ok [OF s1(2) assms(1)]
  note s3 = fmul_ok [OF s2(2) t]
  have d: "\<bar>- d\<bar> \<le> 2 ^ 0"
    using assms(4,5) by simp
  note s4 = fmul_ok [OF d t]
  have "- d * t \<le> 0"
    using assms(2,4) by (simp add: mult_nonneg_nonneg)
  then have neg: "binary64 (- d * t) \<le> 0"
    by (rule binary64_nonpos)
  have e: "math_exp (binary64 (- d * t)) = Inr (binary64 (exp (binary64 (- d * t))))"
    using neg by (rule math_exp_ok)
  have du: "\<bar>binary64 (exp (binary64 (- d * t)))\<bar> \<le> 2 ^ 0"
    using math_exp_unit [OF e neg] by simp
  have su: "\<bar>binary64 (sin x)\<bar> \<le> 2 ^ 0" for x
    using binary64_unit [of "sin x"] by simp
  note s5 = fmul_ok [OF du su]
  show ?thesis
    unfolding compute_resonance_amplitude_def
    by (simp only: s1(1) s2(1) s3(1) s4(1) e math_sin_def s5(1) py_bind_Inr)
qed

lemma fdiv_one_ok:
  assumes "1 \<le> hf"
  shows "fdiv 1 hf = Inr (binary64 (1 / hf))"
proof -
  have "\<bar>1 / hf\<bar> \<le> 2 ^ 0"
    using assms by simp
  then have "fl (1 / hf) = Inr (binary64 (1 / hf))"
    by (rule fl_ok) simp
  then show ?thesis
    using assms by (simp add: fdiv_def)
qed

lemma loop_step_ok:
  assumes "1 \<le> h" and "h < 2 ^ 53" and "\<bar>acc\<bar> \<le> W" and "W \<le> of_int (h - 1)"
    and "\<bar>bf\<bar> \<le> 2 ^ 300" and "0 \<le> t" and "t \<le> 2 ^ 600"
  shows "\<exists>acc' W'. harmonic_term bf t acc h = Inr acc' \<and> weight_term W h = Inr W'
           \<and> \<bar>acc'\<bar> \<le> W' \<and> W' \<le> of_int h"
proof -
  have habs: "\<bar>h\<bar> < 2 ^ 53"
    using assms(1,2) by simp
  have hf: "float_of_int h = Inr (of_int h)"
    using habs by (rule float_of_int_exact)
  have h1: "1 \<le> real_of_int h"
    using assms(1) by simp
  have hb: "\<bar>real_of_int h\<bar> \<le> 2 ^ 53"
  proof -
    have "real_of_int h \<le> real_of_int (2 ^ 53)"
      using assms(2) by (intro of_int_le_iff [THEN iffD2]) simp
    then show ?thesis using h1 by simp
  qed
  note fr = fmul_ok [OF assms(5) hb]
  let ?freq = "binary64 (bf * of_int h)"
  have fb: "\<bar>?freq\<bar> \<le> 2 ^ 400"
  proof -
    have "\<bar>?freq\<bar> \<le> 2 ^ (300 + 53)"
      by (rule fr(2)) simp
    also have "(2::real) ^ (300 + 53) \<le> 2 ^ 400"
      by (intro power_increasing) simp_all
    finally show ?thesis .
  qed
  let ?w = "binary64 (1 / of_int h)"
  have w: "fdiv 1 (of_int h) = Inr ?w"
    using h1 by (rule fdiv_one_ok)
  note wu = weight_unit [OF w h1]
  obtain a where a: "compute_resonance_amplitude ?freq t default_damping = Inr a"
    using compute_resonance_amplitude_ok [OF fb assms(6,7) default_damping_bound] by blast
  have au: "\<bar>a\<bar> \<le> 1"
    using a default_damping_bound(1) assms(6) by (rule compute_resonance_amplitude_unit)
  have "\<bar>?w\<bar> \<le> 2 ^ 0" and "\<bar>a\<bar> \<le> 2 ^ 0"
    using wu au by simp_all
  note tm = fmul_ok [OF this]
  let ?wa = "binary64 (?w * a)"
  have wab: "\<bar>?wa\<bar> \<le> 1"
    using tm(2) by simp
  have W0: "0 \<le> W"
    using assms(3) by linarith
  have addb: "\<bar>acc + ?wa\<bar> \<le> 2 ^ 53"
  proof -
    have "\<bar>acc + ?wa\<bar> \<le> W + 1"
      using assms(3) wab by linarith
    also have "\<dots> \<le> real_of_int h"
      using assms(4) by simp
    finally show ?thesis
      using hb by linarith
  qed
  have add: "fadd acc ?wa = Inr (binary64 (acc + ?wa))"
    unfolding fadd_def using addb by (rule fl_ok) simp
  have ht: "harmonic_term bf t acc h = Inr (binary64 (acc + ?wa))"
    unfolding harmonic_term_def by (simp add: hf fr(1) w a tm(1) add)
  have Wle: "W + ?w \<le> real_of_int h"
    using assms(4) wu(2) by simp
  have Wb: "\<bar>W + ?w\<bar> \<le> 2 ^ 53"
    using Wle W0 wu(1) hb by linarith
  have wadd: "fadd W ?w = Inr (binary64 (W + ?w))"
    unfolding fadd_def using Wb by (rule fl_ok) simp
  have wt: "weight_term W h = Inr (binary64 (W + ?w))"
    unfolding weight_term_def by (simp add: hf w wadd)
  have "binary64 (W + ?w) \<le> binary64 (real_of_int h)"
    using Wle by (rule binary64_mono)
  then have up: "binary64 (W + ?w) \<le> real_of_int h"
    by (simp add: binary64_of_int [OF habs])
  have "\<bar>binary64 (acc + ?wa)\<bar> \<le> binary64 (W + ?w)"
    using ht wt assms(3,1,6) by (rule harmonic_term_bound)
  with ht wt up show ?thesis
    by blast
qed

lemma loops_ok:
  assumes "0 \<le> k" and "hs < 2 ^ 53" and "\<bar>acc\<bar> \<le> W" and "W \<le> of_int k"
    and "\<bar>bf\<bar> \<le> 2 ^ 300" and "0 \<le> t" and "t \<le> 2 ^ 600"
  shows "\<exists>acc' W'. accumulate (harmonic_term bf t) acc [k + 1..hs] = Inr acc'
           \<and> accumulate weight_term W [k + 1..hs] = Inr W'"
  using assms(1,3,4)
proof (induction "nat (hs - k)" arbitrary: k acc W)
  case 0
  then have "[k + 1..hs] = []"
    by simp
  then show ?case
    by simp
next
  case (Suc m)
  then have lt: "k + 1 \<le> hs"
    by linarith
  then have l: "[k + 1..hs] = (k + 1) # [k + 1 + 1..hs]"
    by (simp add: upto_rec1)
  have "1 \<le> k + 1" and "k + 1 < 2 ^ 53" and "W \<le> real_of_int (k + 1 - 1)"
    using Suc.prems lt assms(2) by simp_all
  from loop_step_ok [OF this(1,2) Suc.prems(2) this(3) assms(5,6,7)]
  obtain acc1 W1 where a: "harmonic_term bf t acc (k + 1) = Inr acc1"
    and w: "weight_term W (k + 1) = Inr W1"
    and b: "\<bar>acc1\<bar> \<le> W1" "W1 \<le> real_of_int (k + 1)"
    by blast
  have m: "m = nat (hs - (k + 1))"
    using Suc.hyps(2) by linarith
  have "0 \<le> k + 1"
    using Suc.prems(1) by simp
  from Suc.hyps(1) [OF m this b]
  show ?case
    unfolding l by (simp add: a w)
qed

lemma weight_term_ge_one:
  assumes "weight_term W h = Inr W'" and "1 \<le> h" and "1 \<le> W"
  shows "1 \<le> W'"
proof -
  from assms(1) obtain hf w where hf: "float_of_int h = Inr hf"
    and w: "fdiv 1 hf = Inr w" and W': "fadd W w = Inr W'"
    unfolding weight_term_def py_bind_eq_Inr by blast
  have "0 \<le> w"
    using weight_unit(1) [OF w float_of_int_ge_one [OF hf assms(2)]] .
  then have "binary64 1 \<le> binary64 (W + w)"
    using assms(3) by (intro binary64_mono) simp
  then show ?thesis
    using W' by (simp add: fadd_def fl_Inr)
qed

lemma accumulate_weight_ge_one:
  assumes "accumulate weight_term W hl = Inr W'" and "\<forall>h\<in>set hl. 1 \<le> h" and "1 \<le> W"
  shows "1 \<le> W'"
  using assms
proof (induction hl arbitrary: W)
  case Nil
  then show ?case by simp
next
  case (Cons h hl)
  from Cons.prems(1) obtain W1 where w1: "weight_term W h = Inr W1"
    and w2: "accumulate weight_term W1 hl = Inr W'"
    by (auto split: sum.splits)
  have "1 \<le> W1"
    using w1 _ Cons.prems(3) by (rule weight_term_ge_one) (use Cons.prems(2) in simp)
  from Cons.IH [OF w2 _ this] Cons.prems(2) show ?case
    by simp
qed

lemma weight_term_first: "weight_term 0 1 = Inr 1"
proof -
  have "float_of_int 1 = Inr 1"
    using float_of_int_exact [of 1] by simp
  moreover have "fdiv 1 1 = Inr 1"
    using fdiv_one_ok [of 1] by simp
  moreover have "fadd 0 1 = Inr 1"
    using fl_ok [of 1 0] by (simp add: fadd_def)
  ultimately show ?thesis
    by (simp add: weight_term_def)
qed

lemma weight_sum_ge_one:
  assumes "weight_sum hs = Inr ws" and "1 \<le> hs"
  shows "1 \<le> ws"
proof -
  have l: "[1..hs] = 1 # [2..hs]"
    using assms(2) by (simp add: upto_rec1)
  from assms(1) have "accumulate weight_term 1 [2..hs] = Inr ws"
    unfolding weight_sum_def l by (simp add: weight_term_first)
  then show ?thesis
    by (rule accumulate_weight_ge_one) simp_all
qed

lemma weight_sum_none: "hs < 1 \<Longrightarrow> weight_sum hs = Inr 0"
  by (simp add: weight_sum_def)

lemma total_amplitude_none: "hs < 1 \<Longrightarrow> total_amplitude bf hs t = Inr 0"
  by (simp add: total_amplitude_def)

lemma resonance_point_raises: "hs < 1 \<Longrightarrow> resonance_point bf hs t = Inl ZeroDivisionError"
  by (simp add: resonance_point_def weight_sum_none total_amplitude_none fdiv_def)

lemma resonance_point_ok:
  assumes "1 \<le> hs" and "hs < 2 ^ 53" and "\<bar>bf\<bar> \<le> 2 ^ 300" and "0 \<le> t" and "t \<le> 2 ^ 600"
  shows "\<exists>a. resonance_point bf hs t = Inr \<lparr>time = py_round t 4, amplitude = a\<rparr>"
proof -
  have "\<bar>0::real\<bar> \<le> 0" and "(0::real) \<le> of_int 0"
    by simp_all
  from loops_ok [OF _ assms(2) this assms(3,4,5)]
  obtain raw ws where raw: "total_amplitude bf hs t = Inr raw"
    and ws: "weight_sum hs = Inr ws"
    unfolding total_amplitude_def weight_sum_def by auto
  have w1: "1 \<le> ws"
    using ws assms(1) by (rule weight_sum_ge_one)
  have "\<bar>raw\<bar> \<le> ws"
    using raw ws assms(4) by (rule total_amplitude_bound)
  then have "\<bar>raw / ws\<bar> \<le> 2 ^ 0"
    using w1 by simp
  then have "fl (raw / ws) = Inr (binary64 (raw / ws))"
    by (rule fl_ok) simp
  then have "fdiv raw ws = Inr (binary64 (raw / ws))"
    using w1 by (simp add: fdiv_def)
  then show ?thesis
    unfolding resonance_point_def by (simp add: raw ws)
qed

lemma binary64_binade:
  assumes "2 powr of_int k \<le> \<bar>x\<bar>" and "\<bar>x\<bar> < 2 powr of_int (k + 1)" and "- 1022 \<le> k"
  shows "binary64 x =
    of_int (round_half_even (x / 2 powr of_int (k - 52))) * 2 powr of_int (k - 52)"
proof -
  have pos: "0 < \<bar>x\<bar>"
    using assms(1) powr_gt_zero [of 2 "of_int k"] by linarith
  then have "\<lfloor>log 2 \<bar>x\<bar>\<rfloor> = k"
    using assms by (simp add: floor_log_eq_powr_iff)
  then have "expo x = k - 52"
    using assms(3) by (simp add: expo_def)
  then show ?thesis
    by (simp only: binary64_expo [of x])
qed

lemma binary64_ge_one:
  assumes "2 ^ k \<le> \<bar>x\<bar>" and "\<bar>x\<bar> < 2 ^ Suc k" and "k \<le> 52"
  shows "binary64 x = of_int (round_half_even (x * 2 ^ (52 - k))) / 2 ^ (52 - k)"
proof -
  have "(2::real) powr of_int (int k) = 2 ^ k"
    by (simp add: powr_realpow)
  moreover have "(2::real) powr of_int (int k + 1) = 2 ^ Suc k"
    using powr_realpow [of 2 "Suc k"] by (simp add: add.commute)
  moreover have "(2::real) powr of_int (int k - 52) = 1 / 2 ^ (52 - k)"
  proof -
    have "of_int (int k - 52) = - real (52 - k)"
      using assms(3) by simp
    then show ?thesis
      by (simp only: powr_minus powr_realpow) (simp add: powr_realpow field_simps)
  qed
  ultimately show ?thesis
    using binary64_binade [of "int k" x] assms by simp
qed

lemma literal_72_1: "binary64 (721 / 10) = 2536793227604787 / 35184372088832"
  using binary64_ge_one [of 6 "721 / 10"]
  by (simp add: round_half_even_def Let_def)

lemma product_72_1: "binary64 (2536793227604787 / 35184372088832 * 100) = 7927478836264959 / 1099511627776"
  using binary64_ge_one [of 12 "2536793227604787 / 35184372088832 * 100"]
  by (simp add: round_half_even_def Let_def)

lemma num_samples_Inr:
  "num_samples d sr = Inr n \<longleftrightarrow>
     n = py_int (binary64 (d * sr)) \<and> \<bar>binary64 (d * sr)\<bar> \<le> max_float"
  by (auto simp: num_samples_def py_bind_eq_Inr finite_or_Inr)

lemma num_samples_72_1: "num_samples (binary64 (721 / 10)) 100 = Inr 7209"
proof -
  have "\<bar>7927478836264959 / 1099511627776 :: real\<bar> \<le> max_float"
    using max_float_ge by simp
  then show ?thesis
    unfolding num_samples_Inr literal_72_1 product_72_1 py_int_def by simp
qed

lemma literal_72_08: "binary64 (7208 / 100) = 5072179080326021 / 70368744177664"
  using binary64_ge_one [of 6 "7208 / 100"]
  by (simp add: round_half_even_def Let_def)

lemma time_72_08: "py_round (binary64 (7208 / 100)) 4 = 7208 / 100"
  unfolding literal_72_08 by (simp add: round_half_even_def Let_def py_round_def)

lemma resonance_point_time: "resonance_point bf hs t = Inr s \<Longrightarrow> time s = py_round t 4"
  by (auto simp: resonance_point_def py_bind_eq_Inr)

lemma time_point_ok:
  assumes "real i \<le> 2 ^ 400" and "1 / 2 ^ 200 \<le> sr"
  shows "time_point sr i = Inr (binary64 (binary64 (real i) / sr))"
    and "0 \<le> binary64 (binary64 (real i) / sr)"
    and "binary64 (binary64 (real i) / sr) \<le> 2 ^ 600"
proof -
  have sr: "0 < sr"
  proof -
    have "(0::real) < 1 / 2 ^ 200" by simp
    with assms(2) show ?thesis by linarith
  qed
  have ib: "\<bar>real i\<bar> \<le> 2 ^ 400"
    using assms(1) by simp
  then have bb: "\<bar>binary64 (real i)\<bar> \<le> 2 ^ 400"
    by (rule binary64_bound_pow)
  have f: "float_of_int (int i) = Inr (binary64 (real i))"
    using float_of_int_ok [of "int i" 400] ib by simp
  have nn: "0 \<le> binary64 (real i)"
    by (rule binary64_nonneg) simp
  have "binary64 (real i) / sr \<le> 2 ^ 400 / (1 / 2 ^ 200)"
    using bb nn assms(2) by (intro frac_le) simp_all
  also have "\<dots> = 2 ^ 600"
    by (simp add: power_add [symmetric])
  finally have qb: "\<bar>binary64 (real i) / sr\<bar> \<le> 2 ^ 600"
    using nn sr by simp
  then have "fl (binary64 (real i) / sr) = Inr (binary64 (binary64 (real i) / sr))"
    by (rule fl_ok) simp
  then show "time_point sr i = Inr (binary64 (binary64 (real i) / sr))"
    using sr by (simp add: time_point_def f fdiv_def)
  show "0 \<le> binary64 (binary64 (real i) / sr)"
    using nn sr by (intro binary64_nonneg) simp
  from binary64_bound_pow [OF qb] show "binary64 (binary64 (real i) / sr) \<le> 2 ^ 600"
    by simp
qed

lemma simulate_ok:
  assumes "\<bar>bf\<bar> \<le> 2 ^ 300" and "1 \<le> hs" and "hs < 2 ^ 53"
    and "\<bar>d\<bar> \<le> 2 ^ 200" and "1 / 2 ^ 200 \<le> sr" and "sr \<le> 2 ^ 200"
  shows "\<exists>r. simulate_harmonic_qubit bf hs d sr = Inr r"
proof -
  let ?x = "binary64 (d * sr)"
  let ?n = "py_int ?x"
  have sr: "0 < sr"
  proof -
    have "(0::real) < 1 / 2 ^ 200" by simp
    with assms(5) show ?thesis by linarith
  qed
  have "\<bar>d * sr\<bar> \<le> 2 ^ 200 * 2 ^ 200"
    unfolding abs_mult using assms(4,6) sr by (intro mult_mono) simp_all
  then have p: "\<bar>d * sr\<bar> \<le> 2 ^ 400"
    by (simp add: power_add [symmetric])
  then have xb: "\<bar>?x\<bar> \<le> 2 ^ 400"
    by (rule binary64_bound_pow)
  have n: "num_samples d sr = Inr ?n"
    unfolding num_samples_Inr using binary64_finite [OF p] by simp
  have small: "real i \<le> 2 ^ 400" if "i < nat ?n" for i
  proof -
    have "0 < ?n"
      using that by linarith
    then have "0 \<le> ?x" "?n = \<lfloor>?x\<rfloor>"
      by (auto simp: py_int_def split: if_splits)
    moreover have "real i < real_of_int ?n"
      using that by linarith
    ultimately have "real i \<le> ?x"
      using of_int_floor_le [of ?x] by linarith
    with xb show ?thesis
      by linarith
  qed
  let ?tp = "\<lambda>i. binary64 (binary64 (real i) / sr)"
  have ts: "time_points ?n sr = Inr (map ?tp [0..<nat ?n])"
    unfolding time_points_def
    by (rule for_each_cong_Inr) (use small assms(5) in \<open>auto intro: time_point_ok(1)\<close>)
  have "\<exists>s. resonance_point bf hs t = Inr s" if "t \<in> set (map ?tp [0..<nat ?n])" for t
  proof -
    from that obtain i where i: "i < nat ?n" and t: "t = ?tp i"
      by auto
    note tp = time_point_ok [OF small [OF i] assms(5)]
    from resonance_point_ok [OF assms(2,3,1) tp(2,3)] show ?thesis
      unfolding t by blast
  qed
  then obtain data where "for_each (resonance_point bf hs) (map ?tp [0..<nat ?n]) = Inr data"
    using for_each_exists [of "map ?tp [0..<nat ?n]" "resonance_point bf hs"] by blast
  then show ?thesis
    unfolding simulate_harmonic_qubit_def by (simp add: n ts)
qed



subsection \<open>The result of the analyses\<close>

lemma py_max_Max: "xs \<noteq> [] \<Longrightarrow> py_max xs = Inr (Max (set xs))"
proof (cases xs)
  case Nil
  assume "xs \<noteq> []"
  with Nil show ?thesis by simp
next
  case (Cons x ys)
  have "(\<lambda>a s. max s a) = (max :: real \<Rightarrow> real \<Rightarrow> real)"
    by (intro ext) (simp add: max.commute)
  then have "foldl max x ys = fold max ys x"
    by (simp add: foldl_conv_fold)
  with Cons show ?thesis
    using Max.set_eq_fold [of x ys] by simp
qed

lemma compute_coherence_metrics_empty:
  "compute_coherence_metrics [] =
     Inr \<lparr>total_duration_s = 0, initial_peak_amplitude = 0, final_avg_amplitude = 0,
          coherence_retention = 0, sample_count = 0\<rparr>"
  by (simp add: compute_coherence_metrics_def)

lemma compute_coherence_metrics_nonempty:
  assumes "data \<noteq> []"
  shows "compute_coherence_metrics data =
     (let w = min 100 (length data);
          pk = Max ((\<lambda>s. \<bar>amplitude s\<bar>) ` set (take w data));
          fa = (\<Sum>s\<leftarrow>drop (length data - w) data. \<bar>amplitude s\<bar>) / real w
      in Inr \<lparr>total_duration_s = time (last data),
              initial_peak_amplitude = py_round pk 6,
              final_avg_amplitude = py_round fa 6,
              coherence_retention = py_round (if 0 < pk then fa / pk else 0) 4,
              sample_count = length data\<rparr>)"
proof -
  let ?w = "min 100 (length data)"
  have w: "0 < ?w"
    using assms by simp
  have nz: "?w \<noteq> 0"
    using assms by simp
  have "take ?w data \<noteq> []"
    using assms by (cases data) auto
  then have pk: "py_max (map abs (take ?w (map amplitude data)))
      = Inr (Max ((\<lambda>s. \<bar>amplitude s\<bar>) ` set (take ?w data)))"
    by (simp add: py_max_Max take_map image_image)
  have fa: "sum_list (map abs (last_n ?w (map amplitude data)))
      = (\<Sum>s\<leftarrow>drop (length data - ?w) data. \<bar>amplitude s\<bar>)"
    using nz by (simp only: last_n_def if_False drop_map length_map map_map comp_def)
  show ?thesis
    by (simp only: compute_coherence_metrics_def Let_def length_map pk fa)
      (use assms nz in \<open>simp add: last_map\<close>)
qed

lemma peak_nonneg:
  assumes "xs \<noteq> []"
  shows "0 \<le> Max ((\<lambda>s. \<bar>amplitude s\<bar>) ` set xs)"
proof -
  obtain x where "x \<in> set xs"
    using assms by (cases xs) auto
  then have "\<bar>amplitude x\<bar> \<le> Max ((\<lambda>s. \<bar>amplitude s\<bar>) ` set xs)"
    by (intro Max_ge) auto
  then show ?thesis
    by linarith
qed

lemma py_round_on_decimal_grid: "\<exists>k::int. py_round x n = of_int k / 10 ^ n"
  unfolding py_round_def by blast

lemma coherence_of_two:
  "compute_coherence_metrics
     [\<lparr>time = 0, amplitude = 1 / 2\<rparr>, \<lparr>time = 1 / 100, amplitude = - (1 / 4)\<rparr>] =
     Inr \<lparr>total_duration_s = 1 / 100, initial_peak_amplitude = 1 / 2,
          final_avg_amplitude = 3 / 8, coherence_retention = 3 / 4, sample_count = 2\<rparr>"
  by (simp add: compute_coherence_metrics_def Let_def last_n_def py_round_def
      round_half_even_def)

lemma spectrum_bin_ok:
  assumes "n \<noteq> 0"
  shows "spectrum_bin amplitudes n sample_rate k =
     Inr (case dft_sums amplitudes n k of
            (re, im) \<Rightarrow>
              \<lparr>frequency_hz = py_round (real k * sample_rate / real n) 4,
               magnitude = py_round (sqrt (re\<^sup>2 + im\<^sup>2) / real n) 6\<rparr>)"
  using assms by (simp add: spectrum_bin_def Let_def split: prod.split)

lemma generate_fft_spectrum_nonempty:
  assumes "data \<noteq> []"
  shows "\<exists>spectrum. generate_fft_spectrum data sample_rate max_bins =
     Inr \<lparr>spectrum_type = ''fft'',
          frequency_resolution_hz = py_round (sample_rate / real (length data)) 6,
          bins = min max_bins (int (length data div 2)),
          spectrum_data = spectrum\<rparr>
     \<and> length spectrum = nat (min max_bins (int (length data div 2)))"
proof -
  let ?n = "length data"
  let ?g = "\<lambda>k. case dft_sums (map amplitude data) ?n k of
            (re, im) \<Rightarrow>
              \<lparr>frequency_hz = py_round (real k * sample_rate / real ?n) 4,
               magnitude = py_round (sqrt (re\<^sup>2 + im\<^sup>2) / real ?n) 6\<rparr>"
  have n: "?n \<noteq> 0"
    using assms by simp
  have "for_each (spectrum_bin (map amplitude data) ?n sample_rate)
          [0..<nat (min max_bins (int (?n div 2)))]
      = Inr (map ?g [0..<nat (min max_bins (int (?n div 2)))])"
    by (rule for_each_cong_Inr) (rule spectrum_bin_ok [OF n])
  then show ?thesis
    using n by (simp add: generate_fft_spectrum_def Let_def)
qed

lemma generate_fft_spectrum_single:
  "generate_fft_spectrum [s] sample_rate max_bins =
     Inr \<lparr>spectrum_type = ''fft'', frequency_resolution_hz = py_round sample_rate 6,
          bins = min max_bins 0, spectrum_data = []\<rparr>"
  by (simp add: generate_fft_spectrum_def)

section \<open>The claims\<close>

subsection \<open>C1: the spectrum of a series shorter than two samples\<close>

text \<open>
  C1 says that the transform of every series of length \<open>n < 2\<close>, the empty one included,
  is an empty spectrum and never divides by zero. For one sample that is what the code
  does (\<open>generate_fft_spectrum_single\<close>). For the empty series the loop over the bins is
  skipped, but the returned record still evaluates \<open>sample_rate / n\<close> with \<open>n = 0\<close>:
  the call raises ZeroDivisionError, whatever the sample rate and the bin limit.
\<close>

theorem generate_fft_spectrum_empty_raises:
  "generate_fft_spectrum [] sample_rate max_bins = Inl ZeroDivisionError"
  by (simp add: generate_fft_spectrum_def)

subsection \<open>C5: the driver's scenario\<close>

text \<open>
  C5 says that \<open>base_frequency = 5.0\<close>, \<open>harmonics = 5\<close>, \<open>duration = 72.1\<close>,
  \<open>sample_rate = 100.0\<close> give 7210 samples and a total duration of about 72.09, and that
  the spectrum with at most 50 bins has 50 bins and a resolution of about 0.01387. The
  float \<open>72.1\<close> is \<open>2536793227604787 / 2^45\<close>, just below 72.1; its binary64 product with
  100 is \<open>7927478836264959 / 2^40\<close>, just below 7210 (\<open>num_samples_72_1\<close>), and \<open>int\<close>
  truncates it to 7209. The run therefore has 7209 samples, the last at 72.08, 50 bins and
  a resolution of 0.013872.
\<close>

theorem run_simulation_sample_count:
  "\<exists>sim coherence fft_data.
     run_simulation = Inr (sim, coherence, fft_data)
     \<and> data_points sim = 7209
     \<and> sample_count coherence = 7209
     \<and> total_duration_s coherence = 7208 / 100
     \<and> bins fft_data = 50
     \<and> frequency_resolution_hz fft_data = 13872 / 1000000"
proof -
  let ?d = "binary64 (721 / 10)"
  have "\<bar>?d\<bar> \<le> 2 ^ 200"
    unfolding literal_72_1 by simp
  then obtain sim where sim: "simulate_harmonic_qubit 5 5 ?d 100 = Inr sim"
    using simulate_ok [of 5 5 ?d 100] by auto
  let ?data = "resonance_data sim"
  from simulate_data(1) [OF sim] have len: "length ?data = 7209"
    and dp: "data_points sim = 7209"
    by (simp_all add: num_samples_72_1)
  have ne: "?data \<noteq> []"
    using len by auto
  have "7208 < length ?data"
    using len by simp
  from simulate_data(2) [OF sim this] obtain t
    where t: "time_point 100 7208 = Inr t"
      and p: "resonance_point 5 5 t = Inr (?data ! 7208)"
    by blast
  have "binary64 (real 7208) = 7208"
    using binary64_of_int [of 7208] by simp
  then have "t = binary64 (7208 / 100)"
    using time_point_Inr(1) [OF t] by simp
  moreover have "time (?data ! 7208) = py_round t 4"
    using p by (rule resonance_point_time)
  moreover have "last ?data = ?data ! 7208"
    using ne len by (simp add: last_conv_nth)
  ultimately have "time (last ?data) = py_round (binary64 (7208 / 100)) 4"
    by (simp only:)
  then have lst: "time (last ?data) = 7208 / 100"
    by (simp only: time_72_08)
  obtain coherence where coh: "compute_coherence_metrics ?data = Inr coherence"
    and cnt: "sample_count coherence = 7209"
    and dur: "total_duration_s coherence = 7208 / 100"
    using compute_coherence_metrics_nonempty [OF ne] lst len
    by (simp only: Let_def coherence_metrics.simps)
  obtain spectrum where "generate_fft_spectrum ?data 100 50 =
     Inr \<lparr>spectrum_type = ''fft'',
          frequency_resolution_hz = py_round (100 / real (length ?data)) 6,
          bins = min 50 (int (length ?data div 2)),
          spectrum_data = spectrum\<rparr>"
    using generate_fft_spectrum_nonempty [OF ne, of 100 50] by blast
  then have fft: "generate_fft_spectrum ?data 100 50 =
     Inr \<lparr>spectrum_type = ''fft'', frequency_resolution_hz = 13872 / 1000000,
          bins = 50, spectrum_data = spectrum\<rparr>"
    by (simp only: len) (simp add: py_round_def round_half_even_def Let_def)
  have "run_simulation = Inr (sim, coherence,
      \<lparr>spectrum_type = ''fft'', frequency_resolution_hz = 13872 / 1000000,
       bins = 50, spectrum_data = spectrum\<rparr>)"
    unfolding run_simulation_def sim
    by (simp only: sum.case coh fft)
  with cnt dur dp show ?thesis
    by (intro exI [of _ sim] exI [of _ coherence]
        exI [of _ "\<lparr>spectrum_type = ''fft'', frequency_resolution_hz = 13872 / 1000000,
       bins = 50, spectrum_data = spectrum\<rparr>"]) simp
qed

subsection \<open>C6: decimal places of the coherence metrics\<close>

text \<open>
  C6 says that every amplitude and ratio returned by the coherence analysis is rounded to
  6 decimal places, \<open>coherence_retention\<close> included. The source rounds the ratio to 4
  places: for the amplitudes 0.3 and 0.1 the peak is 0.3, the final average 0.2, and the
  ratio \<open>2/3\<close> is returned as 0.6667, where 6 places give 0.666667.
\<close>

theorem retention_four_places_counterexample:
  "compute_coherence_metrics
     [\<lparr>time = 0, amplitude = 3 / 10\<rparr>, \<lparr>time = 1 / 100, amplitude = 1 / 10\<rparr>] =
     Inr \<lparr>total_duration_s = 1 / 100, initial_peak_amplitude = 3 / 10,
          final_avg_amplitude = 2 / 10, coherence_retention = 6667 / 10000,
          sample_count = 2\<rparr> \<and>
   py_round ((2 / 10) / (3 / 10)) 6 = 666667 / 1000000"
  by (simp add: compute_coherence_metrics_def Let_def last_n_def py_round_def
      round_half_even_def)

text \<open>
  C6 as amended: of the values returned for a non-empty series,
  \<open>initial_peak_amplitude\<close> and \<open>final_avg_amplitude\<close> are rounded to 6 decimal places
  and \<open>coherence_retention\<close> to 4: each is a whole multiple of \<open>10^-6\<close> (of \<open>10^-4\<close>
  for the ratio) within half such a unit of the value it rounds.
\<close>

theorem coherence_metrics_decimal_places:
  assumes "data \<noteq> []" and "compute_coherence_metrics data = Inr m"
  shows "let w = min 100 (length data);
             pk = Max ((\<lambda>s. \<bar>amplitude s\<bar>) ` set (take w data));
             fa = (\<Sum>s\<leftarrow>drop (length data - w) data. \<bar>amplitude s\<bar>) / real w;
             ratio = (if 0 < pk then fa / pk else 0)
         in (\<exists>k::int. initial_peak_amplitude m = of_int k / 10 ^ 6)
            \<and> \<bar>initial_peak_amplitude m - pk\<bar> \<le> 1 / 2 / 10 ^ 6
            \<and> (\<exists>k::int. final_avg_amplitude m = of_int k / 10 ^ 6)
            \<and> \<bar>final_avg_amplitude m - fa\<bar> \<le> 1 / 2 / 10 ^ 6
            \<and> (\<exists>k::int. coherence_retention m = of_int k / 10 ^ 4)
            \<and> \<bar>coherence_retention m - ratio\<bar> \<le> 1 / 2 / 10 ^ 4"
proof -
  let ?w = "min 100 (length data)"
  let ?pk = "Max ((\<lambda>s. \<bar>amplitude s\<bar>) ` set (take ?w data))"
  let ?fa = "(\<Sum>s\<leftarrow>drop (length data - ?w) data. \<bar>amplitude s\<bar>) / real ?w"
  let ?ratio = "if 0 < ?pk then ?fa / ?pk else 0"
  have m: "m = \<lparr>total_duration_s = time (last data),
              initial_peak_amplitude = py_round ?pk 6,
              final_avg_amplitude = py_round ?fa 6,
              coherence_retention = py_round ?ratio 4,
              sample_count = length data\<rparr>"
    using assms(2) unfolding compute_coherence_metrics_nonempty [OF assms(1)] Let_def
    by simp
  have "\<exists>k::int. initial_peak_amplitude m = of_int k / 10 ^ 6"
    and "\<exists>k::int. final_avg_amplitude m = of_int k / 10 ^ 6"
    and "\<exists>k::int. coherence_retention m = of_int k / 10 ^ 4"
    unfolding m by (simp_all only: coherence_metrics.simps py_round_on_decimal_grid)
  moreover have "\<bar>initial_peak_amplitude m - ?pk\<bar> \<le> 1 / 2 / 10 ^ 6"
    and "\<bar>final_avg_amplitude m - ?fa\<bar> \<le> 1 / 2 / 10 ^ 6"
    and "\<bar>coherence_retention m - ?ratio\<bar> \<le> 1 / 2 / 10 ^ 4"
    unfolding m by (simp_all only: coherence_metrics.simps py_round_error)
  ultimately show ?thesis
    unfolding Let_def by blast
qed

theorem coherence_metrics_decimal_places_witness:
  "[\<lparr>time = 0, amplitude = 1 / 2\<rparr>, \<lparr>time = 1 / 100, amplitude = - (1 / 4)\<rparr>] \<noteq> [] \<and>
   compute_coherence_metrics
     [\<lparr>time = 0, amplitude = 1 / 2\<rparr>, \<lparr>time = 1 / 100, amplitude = - (1 / 4)\<rparr>] =
     Inr \<lparr>total_duration_s = 1 / 100, initial_peak_amplitude = 1 / 2,
          final_avg_amplitude = 3 / 8, coherence_retention = 3 / 4, sample_count = 2\<rparr> \<and>
   \<bar>(1 / 2 :: real) - max \<bar>1 / 2\<bar> \<bar>- (1 / 4)\<bar>\<bar> \<le> 1 / 2 / 10 ^ 6 \<and>
   \<bar>(3 / 8 :: real) - (\<bar>1 / 2\<bar> + \<bar>- (1 / 4)\<bar>) / 2\<bar> \<le> 1 / 2 / 10 ^ 6 \<and>
   \<bar>(3 / 4 :: real) - (\<bar>1 / 2\<bar> + \<bar>- (1 / 4)\<bar>) / 2 / max \<bar>1 / 2\<bar> \<bar>- (1 / 4)\<bar>\<bar> \<le> 1 / 2 / 10 ^ 4"
proof -
  let ?data = "[\<lparr>time = 0, amplitude = 1 / 2\<rparr>, \<lparr>time = 1 / 100, amplitude = - (1 / 4)\<rparr>]"
  have ne: "?data \<noteq> []"
    by simp
  from coherence_metrics_decimal_places [OF ne coherence_of_two] ne coherence_of_two
  show ?thesis
    by (simp add: Let_def)
qed

subsection \<open>C9: the normalised amplitude\<close>



end
